theory Spec2Isabelle
  imports Complex_Main "HOL-Library.Multiset"
begin

section \<open>Errors\<close>

text \<open>
  The Python exceptions the notebook's code can surface, and the error names of the
  specification's taxonomy.  The notebook itself defines no exception class and has no
  \<^verbatim>\<open>raise\<close> statement: \<open>IndexError\<close>, \<open>ValueError\<close> and \<open>ZeroDivisionError\<close> are what
  the called operations produce; the last three constructors are the names used by the
  specification.
\<close>

datatype error =
    IndexError
  | ValueError
  | ZeroDivisionError
  | EmptyInputError
  | InvalidFractionError
  | InsufficientDataError

section \<open>Percentile confidence intervals (notebook cell \<open>confidence_intervals\<close>)\<close>

text \<open>
  Scores are Python floats; they are modelled as exact real numbers, so rounding error of
  the floating-point operations is outside the model.  In binary64 the line for \<open>bottom_p\<close>
  is not monotone in \<open>alpha\<close> (\<open>0.2\<close> gives \<open>60.00000000000001\<close>, the next double gives
  \<open>60.0\<close>), so a statement that compares the results at different levels, or that
  classifies \<open>alpha\<close> at the border of the admitted percentages, holds for exact
  arithmetic only.
\<close>

definition np_percentile :: "real list \<Rightarrow> real \<Rightarrow> error + real" where
  \<comment> \<open>Modelled from the spec: \<^verbatim>\<open>np.percentile\<close> is a numpy library function, only called by
      the notebook.  The specification fixes it as "linear interpolation between order
      statistics"; this is numpy's default method: with the data sorted and \<open>n\<close> its length,
      the virtual index is \<open>q / 100 * (n - 1)\<close>, and the result interpolates linearly between
      the two neighbouring order statistics.  A percentage outside \<open>[0, 100]\<close> is rejected
      first (\<open>ValueError\<close>); empty data fails with \<open>IndexError\<close>.\<close>
  "np_percentile a q =
     (if q < 0 \<or> 100 < q then Inl ValueError
      else if a = [] then Inl IndexError
      else
        let s = sort a;
            h = q / 100 * real (length a - 1);
            j = nat \<lfloor>h\<rfloor>;
            g = h - real j;
            below = s ! j;
            above = s ! min (j + 1) (length a - 1)
        in Inr (below + (above - below) * g))"

text \<open>
  \<^verbatim>\<open>
  def confidence_intervals(distribution, alpha=0.95):
      top_p = ((1.0-alpha)/2.0) * 100
      lower_limit = max(0.0, np.percentile(f1s, top_p))
      bottom_p = (alpha+((1.0-alpha)/2.0)) * 100
      upper_limit = min(1.0, np.percentile(f1s, bottom_p))
      return lower_limit, upper_limit
  \<close>
  The module-level variable \<open>f1s\<close> that the body reads is an explicit parameter of the
  model.  The returned Python tuple is the list of its components, so that its number of
  elements is a property of the value.  The percentile function is a parameter of
  \<open>confidence_intervals_with\<close>; \<open>confidence_intervals\<close> is the function with numpy's.
\<close>

definition confidence_intervals_with ::
  "(real list \<Rightarrow> real \<Rightarrow> error + real) \<Rightarrow> real list \<Rightarrow> real list \<Rightarrow> real \<Rightarrow> error + real list"
where
  "confidence_intervals_with percentile f1s distribution alpha =
     (let top_p = ((1 - alpha) / 2) * 100 in
      case percentile f1s top_p of
        Inl e \<Rightarrow> Inl e
      | Inr pl \<Rightarrow>
          let lower_limit = max 0 pl;
              bottom_p = (alpha + ((1 - alpha) / 2)) * 100 in
          (case percentile f1s bottom_p of
             Inl e \<Rightarrow> Inl e
           | Inr pu \<Rightarrow>
               let upper_limit = min 1 pu in
               Inr [lower_limit, upper_limit]))"

definition confidence_intervals :: "real list \<Rightarrow> real list \<Rightarrow> real \<Rightarrow> error + real list" where
  "confidence_intervals = confidence_intervals_with np_percentile"


definition confidence_interval_spec :: "real list \<Rightarrow> real \<Rightarrow> error + real list" where
  \<comment> \<open>The operation as the specification words it (section 4.2), for comparison with the
      notebook's function: both percentiles are taken of the score sequence passed as the
      argument, at the fractions \<open>(1 - c) / 2\<close> and \<open>c + (1 - c) / 2\<close>, the lower bound
      clamped to 0 and the upper bound to 1; an empty sequence is an \<open>EmptyInputError\<close>.\<close>
  "confidence_interval_spec scores confidence_level =
     (if scores = [] then Inl EmptyInputError
      else
        case np_percentile scores ((1 - confidence_level) / 2 * 100) of
          Inl e \<Rightarrow> Inl e
        | Inr pl \<Rightarrow>
            (case np_percentile scores ((confidence_level + (1 - confidence_level) / 2) * 100) of
               Inl e \<Rightarrow> Inl e
             | Inr pu \<Rightarrow> Inr [max 0 pl, min 1 pu]))"

definition lerp_at :: "real list \<Rightarrow> real \<Rightarrow> real" where
  \<comment> \<open>the interpolation step of \<open>np_percentile\<close> on sorted data \<open>s\<close> at virtual index \<open>h\<close>\<close>
  "lerp_at s h =
     (let j = nat \<lfloor>h\<rfloor>
      in s ! j + (s ! min (j + 1) (length s - 1) - s ! j) * (h - real j))"

section \<open>Class ratio (notebook cell \<open>tasty_ratio\<close>)\<close>

text \<open>
  A data frame is the list of its rows; a row holds the feature values and the label
  column \<open>tasty\<close>, an integer read from the CSV file.
\<close>

record row =
  features :: "real list"
  tasty :: int

text \<open>
  \<^verbatim>\<open>
  def tasty_ratio(df):
      n_tasty = df.loc[df['tasty'] == 1, 'tasty'].count()
      return n_tasty / len(df)
  \<close>
  The division has no guard.  A zero denominator is the outcome \<open>Inl ZeroDivisionError\<close>
  of the model, whatever the operand types make of it at run time (Python integers raise
  \<open>ZeroDivisionError\<close>, numpy scalars give \<open>nan\<close> with a warning).
\<close>

definition tasty_ratio :: "row list \<Rightarrow> error + real" where
  "tasty_ratio df =
     (let n_tasty = length (filter (\<lambda>r. tasty r = 1) df)
      in if length df = 0 then Inl ZeroDivisionError
         else Inr (real n_tasty / real (length df)))"

section \<open>Metrics (notebook cell \<open>evaluate\<close>)\<close>

text \<open>
  Labels are binary: \<open>True\<close> is the positive class (\<open>tasty = 1\<close>, sklearn's default
  \<open>pos_label\<close>).
\<close>

datatype zero_division = Warn | Value real

definition zero_division_value :: "zero_division \<Rightarrow> real" where
  \<comment> \<open>the default \<open>"warn"\<close> returns 0 and emits a warning, no exception\<close>
  "zero_division_value z = (case z of Warn \<Rightarrow> 0 | Value v \<Rightarrow> v)"

definition true_positives :: "bool list \<Rightarrow> bool list \<Rightarrow> nat" where
  "true_positives y_true y_pred = length (filter (\<lambda>(t, p). t \<and> p) (zip y_true y_pred))"

definition false_positives :: "bool list \<Rightarrow> bool list \<Rightarrow> nat" where
  "false_positives y_true y_pred = length (filter (\<lambda>(t, p). \<not> t \<and> p) (zip y_true y_pred))"

definition false_negatives :: "bool list \<Rightarrow> bool list \<Rightarrow> nat" where
  "false_negatives y_true y_pred = length (filter (\<lambda>(t, p). t \<and> \<not> p) (zip y_true y_pred))"

definition prf_divide :: "nat \<Rightarrow> nat \<Rightarrow> zero_division \<Rightarrow> real" where
  "prf_divide numerator denominator z =
     (if denominator = 0 then zero_division_value z else real numerator / real denominator)"

definition precision_score :: "bool list \<Rightarrow> bool list \<Rightarrow> zero_division \<Rightarrow> error + real" where
  \<comment> \<open>Modelled from the spec: \<^verbatim>\<open>precision_score\<close>, \<^verbatim>\<open>recall_score\<close> and \<^verbatim>\<open>f1_score\<close> are
      sklearn library functions, only called by the notebook.  The specification's contract
      for a metric (section 6) is two equal-length label sequences in, a scalar of \<open>[0, 1]\<close>
      out; the formulas are the library's documented ones: \<open>tp / (tp + fp)\<close>,
      \<open>tp / (tp + fn)\<close> and \<open>2 tp / (2 tp + fp + fn)\<close>, with the \<open>zero_division\<close> value
      where the denominator is 0, and \<open>ValueError\<close> for sequences of different lengths.\<close>
  "precision_score y_true y_pred z =
     (if length y_true \<noteq> length y_pred then Inl ValueError
      else Inr (prf_divide (true_positives y_true y_pred)
                  (true_positives y_true y_pred + false_positives y_true y_pred) z))"

definition recall_score :: "bool list \<Rightarrow> bool list \<Rightarrow> zero_division \<Rightarrow> error + real" where
  "recall_score y_true y_pred z =
     (if length y_true \<noteq> length y_pred then Inl ValueError
      else Inr (prf_divide (true_positives y_true y_pred)
                  (true_positives y_true y_pred + false_negatives y_true y_pred) z))"

definition f1_score :: "bool list \<Rightarrow> bool list \<Rightarrow> zero_division \<Rightarrow> error + real" where
  "f1_score y_true y_pred z =
     (if length y_true \<noteq> length y_pred then Inl ValueError
      else Inr (prf_divide (2 * true_positives y_true y_pred)
                  (2 * true_positives y_true y_pred + false_positives y_true y_pred
                     + false_negatives y_true y_pred) z))"

text \<open>
  \<^verbatim>\<open>
  FPR = namedtuple('FPR', ['f1', 'precision', 'recall'])

  def evaluate(clf, X_val, y_val):
      y_pred = clf.predict(X_val)
      p = precision_score(y_val, y_pred, zero_division=0)
      r = recall_score(y_val, y_pred)
      f1 = f1_score(y_val, y_pred)
      return FPR(f1=f1, precision=p, recall=r)
  \<close>
  The classifier is its \<open>predict\<close> method, a function from the feature rows to one
  predicted label per row.
\<close>

record FPR =
  f1 :: real
  precision :: real
  recall :: real

definition evaluate :: "('x list \<Rightarrow> bool list) \<Rightarrow> 'x list \<Rightarrow> bool list \<Rightarrow> error + FPR" where
  "evaluate clf X_val y_val =
     (let y_pred = clf X_val in
      case precision_score y_val y_pred (Value 0) of
        Inl e \<Rightarrow> Inl e
      | Inr p \<Rightarrow>
          (case recall_score y_val y_pred Warn of
             Inl e \<Rightarrow> Inl e
           | Inr r \<Rightarrow>
               (case f1_score y_val y_pred Warn of
                  Inl e \<Rightarrow> Inl e
                | Inr f \<Rightarrow> Inr \<lparr>f1 = f, precision = p, recall = r\<rparr>)))"

section \<open>Bootstrap resampling (notebook cell with the \<open>resample\<close> loop)\<close>

text \<open>
  \<^verbatim>\<open>
  seed = 1337
  ...
  fprs = []
  for i in range(100):
      X_test_sample, y_test_sample = resample(X_test, y_test, random_state=seed + i)
      fpr = evaluate(pipe, X_test_sample, y_test_sample)
      fprs.append(fpr)
  \<close>
  The loop is a recursion over the remaining values of \<open>i\<close>, with the list \<open>fprs\<close> as
  accumulator; an exception of \<open>evaluate\<close> ends it.  sklearn's \<open>resample\<close> is a parameter:
  a function of the two arrays and the integer \<open>random_state\<close>.  The seed and the number of
  iterations, constants of the notebook, are parameters as well.
\<close>

type_synonym 'x resample = "'x list \<Rightarrow> bool list \<Rightarrow> int \<Rightarrow> 'x list \<times> bool list"

fun bootstrap_loop ::
  "'x resample \<Rightarrow> ('x list \<Rightarrow> bool list) \<Rightarrow> 'x list \<Rightarrow> bool list \<Rightarrow> int \<Rightarrow> nat list \<Rightarrow> FPR list
    \<Rightarrow> error + FPR list"
where
  "bootstrap_loop resample pipe X_test y_test seed [] fprs = Inr fprs"
| "bootstrap_loop resample pipe X_test y_test seed (i # rest) fprs =
     (case resample X_test y_test (seed + int i) of
        (X_test_sample, y_test_sample) \<Rightarrow>
          (case evaluate pipe X_test_sample y_test_sample of
             Inl e \<Rightarrow> Inl e
           | Inr fpr \<Rightarrow> bootstrap_loop resample pipe X_test y_test seed rest (fprs @ [fpr])))"

definition bootstrap_scores ::
  "'x resample \<Rightarrow> ('x list \<Rightarrow> bool list) \<Rightarrow> 'x list \<Rightarrow> bool list \<Rightarrow> int \<Rightarrow> nat \<Rightarrow> error + FPR list"
where
  "bootstrap_scores resample pipe X_test y_test seed n_resamples =
     bootstrap_loop resample pipe X_test y_test seed [0..<n_resamples] []"

definition notebook_fprs ::
  "'x resample \<Rightarrow> ('x list \<Rightarrow> bool list) \<Rightarrow> 'x list \<Rightarrow> bool list \<Rightarrow> error + FPR list"
where
  \<comment> \<open>the loop with the notebook's constants\<close>
  "notebook_fprs resample pipe X_test y_test = bootstrap_scores resample pipe X_test y_test 1337 100"

definition bootstrap_seeds :: "int \<Rightarrow> nat \<Rightarrow> int list" where
  \<comment> \<open>the values of \<open>random_state\<close> passed by the iterations of the loop, in order\<close>
  "bootstrap_seeds seed n_resamples = map (\<lambda>i. seed + int i) [0..<n_resamples]"

definition evaluate_resample ::
  "'x resample \<Rightarrow> ('x list \<Rightarrow> bool list) \<Rightarrow> 'x list \<Rightarrow> bool list \<Rightarrow> int \<Rightarrow> error + FPR"
where
  \<comment> \<open>the body of one iteration: resample with the given \<open>random_state\<close>, then evaluate\<close>
  "evaluate_resample resample pipe X_test y_test random_state =
     (case resample X_test y_test random_state of
        (X_test_sample, y_test_sample) \<Rightarrow> evaluate pipe X_test_sample y_test_sample)"

section \<open>Stratified splitting (calls of \<open>train_test_split\<close> and \<open>StratifiedKFold\<close>)\<close>

text \<open>
  The notebook splits by calling sklearn:
  \<^verbatim>\<open>
  train_val_df, test_df = train_test_split(df, test_size=0.2, random_state=1337,
                                           stratify=df['tasty'])
  skf = StratifiedKFold(n_splits=5, random_state=1337, shuffle=True)
  for train_indices, val_indices in skf.split(X_train_val, y_train_val): ...
  \<close>
  The splitting itself is library code.  The definitions of this section follow the
  algorithms that section 4.1 of the specification gives for \<open>stratified_split\<close> and
  \<open>stratified_kfold\<close>.  A dataset is the list of its labels, its indices are
  \<open>0..<length labels\<close>; \<open>classes\<close> is the fixed finite set of classes of the data model,
  as a list; the seeded random choice is a parameter \<open>shuffle\<close>, which maps a seed and a
  list to a rearrangement of the list.
\<close>

definition class_indices :: "'c list \<Rightarrow> 'c \<Rightarrow> nat list" where
  \<comment> \<open>Modelled from the spec: "group record indices by class label"; the grouping is done
      inside sklearn, which is not part of the notebook.\<close>
  "class_indices labels c = filter (\<lambda>i. labels ! i = c) [0..<length labels]"

definition stratified_split ::
  "(nat \<Rightarrow> nat list \<Rightarrow> nat list) \<Rightarrow> 'c list \<Rightarrow> 'c list \<Rightarrow> real \<Rightarrow> nat \<Rightarrow> error + nat list \<times> nat list"
where
  \<comment> \<open>Modelled from the spec: the function behind \<^verbatim>\<open>train_test_split(stratify=...)\<close> is
      sklearn's, the notebook only calls it.  Section 4.1: \<open>0 < test_fraction < 1\<close>, else
      \<open>InvalidFractionError\<close>; \<open>InsufficientDataError\<close> if a class has zero members; "for
      each class group, independently and randomly (seeded) select
      \<open>round(test_fraction * group_size)\<close> indices into the test partition, remainder into
      train; concatenate across classes".  The result is \<open>(train_partition, test_partition)\<close>.
      \<open>round\<close> rounds to the nearest integer, halves upwards.\<close>
  "stratified_split shuffle classes labels test_fraction seed =
     (if \<not> (0 < test_fraction \<and> test_fraction < 1) then Inl InvalidFractionError
      else if \<exists>c\<in>set classes. class_indices labels c = [] then Inl InsufficientDataError
      else
        let groups = map (\<lambda>c. shuffle seed (class_indices labels c)) classes;
            n_test = (\<lambda>g. nat (round (test_fraction * real (length g))))
        in Inr (concat (map (\<lambda>g. drop (n_test g) g) groups),
                concat (map (\<lambda>g. take (n_test g) g) groups)))"

definition fold_sizes :: "nat \<Rightarrow> nat \<Rightarrow> nat list" where
  \<comment> \<open>Modelled from the spec: the sizes of the \<open>k\<close> "nearly-equal contiguous groups (sizes
      differ by at most 1)" of a class of \<open>m\<close> members, "remainder distributed to the first
      \<open>remainder\<close> groups"; computed inside sklearn's \<^verbatim>\<open>StratifiedKFold\<close>.\<close>
  "fold_sizes m k = map (\<lambda>j. m div k + (if j < m mod k then 1 else 0)) [0..<k]"

fun chunks :: "nat list \<Rightarrow> 'a list \<Rightarrow> 'a list list" where
  \<comment> \<open>Modelled from the spec: cutting a list into contiguous groups of the given sizes, the
      partition step of \<open>stratified_kfold\<close>, done inside sklearn.\<close>
  "chunks [] xs = []"
| "chunks (s # ss) xs = take s xs # chunks ss (drop s xs)"

definition class_groups ::
  "(nat \<Rightarrow> nat list \<Rightarrow> nat list) \<Rightarrow> nat \<Rightarrow> 'c list \<Rightarrow> nat \<Rightarrow> 'c \<Rightarrow> nat list list"
where
  \<comment> \<open>Modelled from the spec: "independently for each class, partition that class's shuffled
      indices into k nearly-equal contiguous groups"; done inside sklearn.\<close>
  "class_groups shuffle seed labels k c =
     (let g = shuffle seed (class_indices labels c) in chunks (fold_sizes (length g) k) g)"

definition stratified_kfold ::
  "(nat \<Rightarrow> nat list \<Rightarrow> nat list) \<Rightarrow> 'c list \<Rightarrow> 'c list \<Rightarrow> nat \<Rightarrow> nat
     \<Rightarrow> error + (nat list \<times> nat list) list"
where
  \<comment> \<open>Modelled from the spec: the generator behind \<^verbatim>\<open>StratifiedKFold(...).split\<close> is
      sklearn's, the notebook only iterates over it.  Section 4.1: every class must have at
      least \<open>k\<close> members (\<open>InsufficientDataError\<close>); "fold i's validation set is the union
      across classes of group i; its training set is the union of all other groups".  The
      result is the sequence of the \<open>k\<close> pairs \<open>(train_indices, val_indices)\<close>.\<close>
  "stratified_kfold shuffle classes labels k seed =
     (if \<exists>c\<in>set classes. length (class_indices labels c) < k then Inl InsufficientDataError
      else
        let group = (\<lambda>c j. class_groups shuffle seed labels k c ! j)
        in Inr (map (\<lambda>i. (concat (map (\<lambda>c. concat (map (group c) (filter (\<lambda>j. j \<noteq> i) [0..<k])))
                                   classes),
                           concat (map (\<lambda>c. group c i) classes)))
                  [0..<k]))"

section \<open>Properties of the percentile\<close>

lemma np_percentile_lerp:
  assumes "a \<noteq> []" "0 \<le> q" "q \<le> 100"
  shows "np_percentile a q = Inr (lerp_at (sort a) (q / 100 * real (length a - 1)))"
  using assms by (simp add: np_percentile_def lerp_at_def Let_def)

lemma lerp_at_bounds:
  assumes "sorted s" "s \<noteq> []" "0 \<le> h" "h \<le> real (length s - 1)"
  shows "s ! nat \<lfloor>h\<rfloor> \<le> lerp_at s h"
    and "lerp_at s h \<le> s ! min (nat \<lfloor>h\<rfloor> + 1) (length s - 1)"
proof -
  let ?j = "nat \<lfloor>h\<rfloor>"
  let ?k = "min (?j + 1) (length s - 1)"
  have j: "real ?j \<le> h" "h - real ?j < 1" "h - real ?j \<ge> 0"
    using assms(3) by (auto simp: of_nat_nat) linarith+
  have "real ?j \<le> real (length s - 1)" using j(1) assms(4) by linarith
  hence jle: "?j \<le> length s - 1" by simp
  hence "?j \<le> ?k" "?k < length s" using assms(2) by (auto simp: min_def)
  hence le: "s ! ?j \<le> s ! ?k" using assms(1) by (simp add: sorted_nth_mono)
  have "0 \<le> (s ! ?k - s ! ?j) * (h - real ?j)" using le j(3) by simp
  thus "s ! ?j \<le> lerp_at s h" by (simp add: lerp_at_def Let_def)
  have "(s ! ?k - s ! ?j) * (h - real ?j) \<le> (s ! ?k - s ! ?j) * 1"
    using le j(2) by (intro mult_left_mono) auto
  thus "lerp_at s h \<le> s ! ?k" by (simp add: lerp_at_def Let_def)
qed

lemma lerp_at_mono:
  assumes "sorted s" "s \<noteq> []" "0 \<le> h1" "h1 \<le> h2" "h2 \<le> real (length s - 1)"
  shows "lerp_at s h1 \<le> lerp_at s h2"
proof (cases "nat \<lfloor>h1\<rfloor> = nat \<lfloor>h2\<rfloor>")
  case True
  let ?j = "nat \<lfloor>h1\<rfloor>"
  let ?k = "min (?j + 1) (length s - 1)"
  have j: "real ?j \<le> h1" using assms(3) by (auto simp: of_nat_nat)
  have "real ?j \<le> real (length s - 1)" using j assms by linarith
  hence jle: "?j \<le> length s - 1" by simp
  hence "?j \<le> ?k" "?k < length s" using assms(2) by (auto simp: min_def)
  hence le: "s ! ?j \<le> s ! ?k" using assms(1) by (simp add: sorted_nth_mono)
  have "(s ! ?k - s ! ?j) * (h1 - real ?j) \<le> (s ! ?k - s ! ?j) * (h2 - real ?j)"
    using le assms(4) by (intro mult_left_mono) auto
  thus ?thesis using True by (simp add: lerp_at_def Let_def)
next
  case False
  have "\<lfloor>h1\<rfloor> \<le> \<lfloor>h2\<rfloor>" using assms(4) by (rule floor_mono)
  hence "nat \<lfloor>h1\<rfloor> \<le> nat \<lfloor>h2\<rfloor>" by simp
  with False have lt: "nat \<lfloor>h1\<rfloor> + 1 \<le> nat \<lfloor>h2\<rfloor>" by simp
  have j2: "real (nat \<lfloor>h2\<rfloor>) \<le> h2" using assms by (auto simp: of_nat_nat)
  have "real (nat \<lfloor>h2\<rfloor>) \<le> real (length s - 1)" using j2 assms by linarith
  hence j2le: "nat \<lfloor>h2\<rfloor> \<le> length s - 1" by simp
  hence j2lt: "nat \<lfloor>h2\<rfloor> < length s" using assms(2) by (cases s) auto
  have "min (nat \<lfloor>h1\<rfloor> + 1) (length s - 1) \<le> nat \<lfloor>h2\<rfloor>" using lt by simp
  hence mid: "s ! min (nat \<lfloor>h1\<rfloor> + 1) (length s - 1) \<le> s ! nat \<lfloor>h2\<rfloor>"
    using assms(1) j2lt by (simp add: sorted_nth_mono)
  have "lerp_at s h1 \<le> s ! min (nat \<lfloor>h1\<rfloor> + 1) (length s - 1)"
    using lerp_at_bounds(2)[of s h1] assms by simp
  moreover have "s ! nat \<lfloor>h2\<rfloor> \<le> lerp_at s h2"
    using lerp_at_bounds(1)[of s h2] assms by simp
  ultimately show ?thesis using mid by linarith
qed

lemma np_percentile_mono:
  assumes "a \<noteq> []" "0 \<le> q1" "q1 \<le> q2" "q2 \<le> 100"
  shows "\<exists>p1 p2. np_percentile a q1 = Inr p1 \<and> np_percentile a q2 = Inr p2 \<and> p1 \<le> p2"
proof -
  let ?n = "real (length a - 1)"
  have "lerp_at (sort a) (q1 / 100 * ?n) \<le> lerp_at (sort a) (q2 / 100 * ?n)"
  proof (rule lerp_at_mono)
    show "sorted (sort a)" by simp
    show "sort a \<noteq> []" using assms(1) by (metis length_0_conv length_sort)
    show "0 \<le> q1 / 100 * ?n" using assms(2) by simp
    show "q1 / 100 * ?n \<le> q2 / 100 * ?n" using assms(3) by (simp add: mult_right_mono)
    have "q2 / 100 * ?n \<le> 1 * ?n" using assms(4) by (intro mult_right_mono) auto
    thus "q2 / 100 * ?n \<le> real (length (sort a) - 1)" by simp
  qed
  thus ?thesis using assms by (simp add: np_percentile_lerp)
qed

section \<open>Properties of \<open>confidence_intervals\<close>\<close>

lemma confidence_intervals_empty:
  assumes "- 1 \<le> alpha" "alpha \<le> 1"
  shows "confidence_intervals [] distribution alpha = Inl IndexError"
proof -
  have "0 \<le> (1 - alpha) / 2 * 100" "(1 - alpha) / 2 * 100 \<le> 100"
    using assms by (simp_all add: field_simps)
  thus ?thesis
    by (simp add: confidence_intervals_def confidence_intervals_with_def np_percentile_def)
qed

lemma confidence_intervals_of_f1s:
  "f1s \<noteq> [] \<Longrightarrow> confidence_intervals f1s f1s alpha = confidence_interval_spec f1s alpha"
  by (simp add: confidence_intervals_def confidence_intervals_with_def confidence_interval_spec_def
      Let_def split: sum.splits)

text \<open>
  Claim C1.  The claim: for a non-empty score sequence and a confidence level strictly
  between 0 and 1, the bounds are the percentiles of the score sequence passed as the
  argument.  The function reads the module-level \<open>f1s\<close> instead of its parameter
  \<open>distribution\<close>: called with the argument \<open>[0.2]\<close> while \<open>f1s\<close> is \<open>[0.5]\<close>, it returns
  the percentiles \<open>(0.5, 0.5)\<close> of \<open>f1s\<close>, where the percentiles of the argument are
  \<open>(0.2, 0.2)\<close>.  (By \<open>confidence_intervals_of_f1s\<close> the two agree when the argument is
  \<open>f1s\<close> itself.)
\<close>

theorem confidence_intervals_not_of_argument:
  "confidence_intervals [1 / 2] [1 / 5] (19 / 20) = Inr [1 / 2, 1 / 2] \<and>
   confidence_interval_spec [1 / 5] (19 / 20) = Inr [1 / 5, 1 / 5]"
  by (simp add: confidence_intervals_def confidence_intervals_with_def confidence_interval_spec_def
      np_percentile_def)

text \<open>
  In exact arithmetic, and for the scores \<open>f1s\<close> that the function reads, the intervals
  nest: for non-empty \<open>f1s\<close> and levels \<open>a1 \<le> a2\<close> strictly between 0 and 1, the interval
  at \<open>a2\<close> contains the interval at \<open>a1\<close>, whatever is passed as the argument.
\<close>

lemma confidence_intervals_nested_exact:
  assumes "f1s \<noteq> []" "0 < a1" "a1 \<le> a2" "a2 < 1"
  shows "\<exists>lo1 hi1 lo2 hi2.
           confidence_intervals f1s d1 a1 = Inr [lo1, hi1] \<and>
           confidence_intervals f1s d2 a2 = Inr [lo2, hi2] \<and>
           lo2 \<le> lo1 \<and> hi1 \<le> hi2"
proof -
  have "\<exists>p1 p2. np_percentile f1s (((1 - a2) / 2) * 100) = Inr p1 \<and>
           np_percentile f1s (((1 - a1) / 2) * 100) = Inr p2 \<and> p1 \<le> p2"
  proof (rule np_percentile_mono)
    show "f1s \<noteq> []" by (rule assms(1))
    show "0 \<le> (1 - a2) / 2 * 100" using assms by simp
    show "(1 - a2) / 2 * 100 \<le> (1 - a1) / 2 * 100" using assms by simp
    show "(1 - a1) / 2 * 100 \<le> 100" using assms by simp
  qed
  then obtain pl2 pl1 where lo: "np_percentile f1s (((1 - a2) / 2) * 100) = Inr pl2"
      "np_percentile f1s (((1 - a1) / 2) * 100) = Inr pl1" "pl2 \<le> pl1"
    by blast
  have "\<exists>p1 p2. np_percentile f1s ((a1 + ((1 - a1) / 2)) * 100) = Inr p1 \<and>
           np_percentile f1s ((a2 + ((1 - a2) / 2)) * 100) = Inr p2 \<and> p1 \<le> p2"
  proof (rule np_percentile_mono)
    show "f1s \<noteq> []" by (rule assms(1))
    show "0 \<le> (a1 + (1 - a1) / 2) * 100" using assms by (simp add: field_simps)
    show "(a1 + (1 - a1) / 2) * 100 \<le> (a2 + (1 - a2) / 2) * 100" using assms by (simp add: field_simps)
    show "(a2 + (1 - a2) / 2) * 100 \<le> 100" using assms by (simp add: field_simps)
  qed
  then obtain pu1 pu2 where hi: "np_percentile f1s ((a1 + ((1 - a1) / 2)) * 100) = Inr pu1"
      "np_percentile f1s ((a2 + ((1 - a2) / 2)) * 100) = Inr pu2" "pu1 \<le> pu2"
    by blast
  show ?thesis using lo hi
    by (auto simp: confidence_intervals_def confidence_intervals_with_def)
qed





lemma stratified_split_invalid_fraction:
  assumes "test_fraction \<le> 0 \<or> 1 \<le> test_fraction"
  shows "stratified_split shuffle classes labels test_fraction seed = Inl InvalidFractionError"
  using assms by (auto simp: stratified_split_def)

text \<open>
  Claim C7.  The claim: an empty score sequence passed to the interval estimation is
  detected at the start of the operation and reported as one error, with no partial
  result.  The function does not look at the sequence it is given: called with the empty
  argument while the module-level \<open>f1s\<close> holds one score, it reports no error and returns
  the interval \<open>(0.5, 0.5)\<close> of \<open>f1s\<close>, where the operation of the specification reports
  \<open>EmptyInputError\<close>.  (Where the scores it reads are empty, it does end in one error and
  no result, by \<open>confidence_intervals_empty\<close>; and the split of the specification rejects
  a fraction outside \<open>(0, 1)\<close> first, by \<open>stratified_split_invalid_fraction\<close>.)
\<close>

theorem confidence_intervals_empty_argument_accepted:
  "confidence_intervals [1 / 2] [] (19 / 20) = Inr [1 / 2, 1 / 2] \<and>
   confidence_interval_spec [] (19 / 20) = Inl EmptyInputError"
  by (simp add: confidence_intervals_def confidence_intervals_with_def confidence_interval_spec_def
      np_percentile_def)

text \<open>
  Claim C9.  The result of \<open>confidence_intervals\<close> does not depend on its \<open>distribution\<close>
  argument: for the same \<open>f1s\<close> and the same \<open>alpha\<close>, any two arguments give the same
  result, whatever the percentile function is.
\<close>

theorem confidence_intervals_ignores_distribution:
  "confidence_intervals_with percentile f1s d1 alpha = confidence_intervals_with percentile f1s d2 alpha"
  by (simp add: confidence_intervals_with_def)

section \<open>Properties of the bootstrap loop\<close>

lemma bootstrap_loop_cong:
  assumes "\<forall>i\<in>set is. rs1 X y (seed + int i) = rs2 X y (seed + int i)"
  shows "bootstrap_loop rs1 pipe X y seed is acc = bootstrap_loop rs2 pipe X y seed is acc"
  using assms
proof (induction "is" arbitrary: acc)
  case Nil
  show ?case by simp
next
  case (Cons i rest)
  then show ?case by (simp split: prod.splits sum.splits)
qed

lemma bootstrap_loop_result:
  assumes "bootstrap_loop rs pipe X y seed is acc = Inr out"
  shows "\<exists>new. out = acc @ new \<and> length new = length is \<and>
           (\<forall>j<length is. evaluate_resample rs pipe X y (seed + int (is ! j)) = Inr (new ! j))"
  using assms
proof (induction "is" arbitrary: acc)
  case Nil
  then show ?case by simp
next
  case (Cons i rest)
  obtain Xs ys where r: "rs X y (seed + int i) = (Xs, ys)" by (cases "rs X y (seed + int i)")
  from Cons.prems r obtain fpr where e: "evaluate pipe Xs ys = Inr fpr"
    and l: "bootstrap_loop rs pipe X y seed rest (acc @ [fpr]) = Inr out"
    by (auto split: sum.splits)
  from Cons.IH[OF l] obtain new where n: "out = (acc @ [fpr]) @ new" "length new = length rest"
    "\<forall>j<length rest. evaluate_resample rs pipe X y (seed + int (rest ! j)) = Inr (new ! j)"
    by blast
  have "\<forall>j<length (i # rest). evaluate_resample rs pipe X y (seed + int ((i # rest) ! j)) = Inr ((fpr # new) ! j)"
  proof (intro allI impI)
    fix j assume "j < length (i # rest)"
    thus "evaluate_resample rs pipe X y (seed + int ((i # rest) ! j)) = Inr ((fpr # new) ! j)"
      using n(3) r e by (cases j) (auto simp: evaluate_resample_def)
  qed
  thus ?case using n(1,2) by (intro exI[of _ "fpr # new"]) simp
qed

lemma bootstrap_loop_total:
  assumes "\<forall>i\<in>set is. \<exists>fpr. evaluate_resample rs pipe X y (seed + int i) = Inr fpr"
  shows "\<exists>out. bootstrap_loop rs pipe X y seed is acc = Inr out"
  using assms
proof (induction "is" arbitrary: acc)
  case Nil
  show ?case by simp
next
  case (Cons i rest)
  then show ?case by (auto simp: evaluate_resample_def split: prod.splits sum.splits)
qed

lemma evaluate_total:
  assumes "length (clf X_val) = length y_val"
  shows "\<exists>fpr. evaluate clf X_val y_val = Inr fpr"
  using assms by (simp add: evaluate_def precision_score_def recall_score_def f1_score_def Let_def)

lemma bootstrap_seeds_distinct: "distinct (bootstrap_seeds seed n)"
  by (simp add: bootstrap_seeds_def distinct_map inj_on_def)

text \<open>
  Claim C2.  The bootstrap loop is determined by its inputs and by what \<open>resample\<close> returns
  at the seeds \<open>seed + i\<close>, \<open>i < n\<close>: two runs whose resampling agrees at these seeds
  return the same sequence, element for element.  The seeds of the iterations are pairwise
  distinct, iteration \<open>i\<close> contributes the evaluation of the resample drawn with
  \<open>seed + i\<close> as element \<open>i\<close> of a result of length \<open>n\<close>, and the loop returns a result
  whenever every resample has one prediction per label.
\<close>

theorem bootstrap_scores_deterministic:
  "((\<forall>i<n. rs1 X y (seed + int i) = rs2 X y (seed + int i)) \<longrightarrow>
      bootstrap_scores rs1 pipe X y seed n = bootstrap_scores rs2 pipe X y seed n) \<and>
   distinct (bootstrap_seeds seed n) \<and>
   (\<forall>out. bootstrap_scores rs1 pipe X y seed n = Inr out \<longrightarrow>
      length out = n \<and>
      (\<forall>i<n. evaluate_resample rs1 pipe X y (bootstrap_seeds seed n ! i) = Inr (out ! i))) \<and>
   ((\<forall>i<n. case rs1 X y (seed + int i) of (Xs, ys) \<Rightarrow> length (pipe Xs) = length ys) \<longrightarrow>
      (\<exists>out. bootstrap_scores rs1 pipe X y seed n = Inr out))"
proof -
  have det: "(\<forall>i<n. rs1 X y (seed + int i) = rs2 X y (seed + int i)) \<longrightarrow>
      bootstrap_scores rs1 pipe X y seed n = bootstrap_scores rs2 pipe X y seed n"
    unfolding bootstrap_scores_def by (intro impI bootstrap_loop_cong) simp
  have res: "\<forall>out. bootstrap_scores rs1 pipe X y seed n = Inr out \<longrightarrow>
      length out = n \<and>
      (\<forall>i<n. evaluate_resample rs1 pipe X y (bootstrap_seeds seed n ! i) = Inr (out ! i))"
  proof (intro allI impI)
    fix out assume "bootstrap_scores rs1 pipe X y seed n = Inr out"
    from bootstrap_loop_result[OF this[unfolded bootstrap_scores_def]]
    show "length out = n \<and>
      (\<forall>i<n. evaluate_resample rs1 pipe X y (bootstrap_seeds seed n ! i) = Inr (out ! i))"
      by (auto simp: bootstrap_seeds_def)
  qed
  have tot: "(\<forall>i<n. case rs1 X y (seed + int i) of (Xs, ys) \<Rightarrow> length (pipe Xs) = length ys) \<longrightarrow>
      (\<exists>out. bootstrap_scores rs1 pipe X y seed n = Inr out)"
  proof
    assume a: "\<forall>i<n. case rs1 X y (seed + int i) of (Xs, ys) \<Rightarrow> length (pipe Xs) = length ys"
    have "\<forall>i\<in>set [0..<n]. \<exists>fpr. evaluate_resample rs1 pipe X y (seed + int i) = Inr fpr"
    proof
      fix i assume "i \<in> set [0..<n]"
      hence "case rs1 X y (seed + int i) of (Xs, ys) \<Rightarrow> length (pipe Xs) = length ys"
        using a by simp
      thus "\<exists>fpr. evaluate_resample rs1 pipe X y (seed + int i) = Inr fpr"
        by (auto simp: evaluate_resample_def split: prod.splits intro: evaluate_total)
    qed
    thus "\<exists>out. bootstrap_scores rs1 pipe X y seed n = Inr out"
      unfolding bootstrap_scores_def by (rule bootstrap_loop_total)
  qed
  from det bootstrap_seeds_distinct res tot show ?thesis by blast
qed

theorem bootstrap_scores_deterministic_witness:
  "(\<lambda>X y s. if even s then (X, y) else (rev X, rev y)) [1, -1, 2::int] [True, True, False] (1337::int)
     = (\<lambda>X y s. if s = 0 then ([], []) else if even s then (X, y) else (rev X, rev y))
         [1, -1, 2::int] [True, True, False] (1337::int) \<and>
   (\<lambda>X y s. if even s then (X, y) else (rev X, rev y)) [1, -1, 2::int] [True, True, False] (1338::int)
     = (\<lambda>X y s. if s = 0 then ([], []) else if even s then (X, y) else (rev X, rev y))
         [1, -1, 2::int] [True, True, False] (1338::int) \<and>
   bootstrap_scores (\<lambda>X y s. if even s then (X, y) else (rev X, rev y)) (\<lambda>X. map (\<lambda>x. 0 < x) X)
      [1, -1, 2::int] [True, True, False] 1337 2
    = bootstrap_scores (\<lambda>X y s. if s = 0 then ([], []) else if even s then (X, y) else (rev X, rev y))
      (\<lambda>X. map (\<lambda>x. 0 < x) X) [1, -1, 2::int] [True, True, False] 1337 2 \<and>
   distinct (bootstrap_seeds 1337 2)"
proof -
  have h: "\<forall>i<2. (\<lambda>X y s. if even s then (X, y) else (rev X, rev y)) [1, -1, 2::int] [True, True, False] (1337 + int i)
        = (\<lambda>X y s. if s = 0 then ([], []) else if even s then (X, y) else (rev X, rev y))
            [1, -1, 2::int] [True, True, False] (1337 + int i)"
    by auto
  from h bootstrap_scores_deterministic[of 2 "\<lambda>X y s. if even s then (X, y) else (rev X, rev y)"
      "[1, -1, 2::int]" "[True, True, False]" 1337
      "\<lambda>X y s. if s = 0 then ([], []) else if even s then (X, y) else (rev X, rev y)"
      "\<lambda>X. map (\<lambda>x. 0 < x) X"]
  have "bootstrap_scores (\<lambda>X y s. if even s then (X, y) else (rev X, rev y)) (\<lambda>X. map (\<lambda>x. 0 < x) X)
      [1, -1, 2::int] [True, True, False] 1337 2
    = bootstrap_scores (\<lambda>X y s. if s = 0 then ([], []) else if even s then (X, y) else (rev X, rev y))
      (\<lambda>X. map (\<lambda>x. 0 < x) X) [1, -1, 2::int] [True, True, False] 1337 2 \<and>
   distinct (bootstrap_seeds 1337 2)"
    by blast
  thus ?thesis by simp
qed

section \<open>Properties of the metrics\<close>

lemma no_positive_counts:
  assumes "\<forall>p\<in>set y_pred. \<not> p"
  shows "true_positives y_true y_pred = 0" and "false_positives y_true y_pred = 0"
proof -
  have "\<And>t p. (t, p) \<in> set (zip y_true y_pred) \<Longrightarrow> \<not> p"
    using assms by (auto dest: set_zip_rightD)
  thus "true_positives y_true y_pred = 0" "false_positives y_true y_pred = 0"
    by (auto simp: true_positives_def false_positives_def filter_empty_conv)
qed

text \<open>
  Claim C8.  For ground-truth labels and predictions of equal length, when no prediction
  is positive, \<open>evaluate\<close> returns without an error and all three scores are 0.
\<close>

theorem evaluate_zero_predicted_positives:
  assumes "length (clf X_val) = length y_val" and "\<forall>p\<in>set (clf X_val). \<not> p"
  shows "evaluate clf X_val y_val = Inr \<lparr>f1 = 0, precision = 0, recall = 0\<rparr>"
  using assms no_positive_counts[OF assms(2), of y_val]
  by (simp add: evaluate_def precision_score_def recall_score_def f1_score_def prf_divide_def
      zero_division_value_def Let_def)

theorem evaluate_zero_predicted_positives_witness:
  "length ((\<lambda>X. map (\<lambda>x. False) X) [1::nat, 2, 3]) = length [True, False, True] \<and>
   set ((\<lambda>X. map (\<lambda>x. False) X) [1::nat, 2, 3]) = {False} \<and>
   evaluate (\<lambda>X. map (\<lambda>x. False) X) [1::nat, 2, 3] [True, False, True]
     = Inr \<lparr>f1 = 0, precision = 0, recall = 0\<rparr>"
  using evaluate_zero_predicted_positives[of "\<lambda>X. map (\<lambda>x. False) X" "[1::nat, 2, 3]" "[True, False, True]"]
  by simp

section \<open>Properties of \<open>tasty_ratio\<close>\<close>

lemma n_tasty_count_list:
  "length (filter (\<lambda>r. tasty r = 1) df) = count_list (map tasty df) 1"
  by (induction df) simp_all

text \<open>
  Claim C10.  \<open>tasty_ratio\<close> divides the count of positive rows by the number of rows
  without a guard: for every non-empty data frame it returns the number of occurrences of
  1 in the column \<open>tasty\<close> divided by the number of rows, a value between 0 and 1
  inclusive, and for the empty data frame the denominator is zero.
\<close>

theorem tasty_ratio_range:
  "(df \<noteq> [] \<longrightarrow>
      tasty_ratio df = Inr (real (count_list (map tasty df) 1) / real (length df)) \<and>
      0 \<le> real (count_list (map tasty df) 1) / real (length df) \<and>
      real (count_list (map tasty df) 1) / real (length df) \<le> 1) \<and>
   (df = [] \<longrightarrow> tasty_ratio df = Inl ZeroDivisionError)"
proof -
  have "count_list (map tasty df) 1 \<le> length df"
    using length_filter_le[of "\<lambda>r. tasty r = 1" df] by (simp add: n_tasty_count_list)
  hence "real (count_list (map tasty df) 1) \<le> real (length df)" by simp
  thus ?thesis by (auto simp: tasty_ratio_def Let_def n_tasty_count_list divide_le_eq_1)
qed

theorem tasty_ratio_range_witness:
  "[\<lparr>features = [1], tasty = 1\<rparr>, \<lparr>features = [2], tasty = 0\<rparr>] \<noteq> [] \<and>
   tasty_ratio [\<lparr>features = [1], tasty = 1\<rparr>, \<lparr>features = [2], tasty = 0\<rparr>] = Inr (1 / 2) \<and>
   tasty_ratio [\<lparr>features = [1], tasty = 0\<rparr>, \<lparr>features = [2], tasty = 2\<rparr>] = Inr 0 \<and>
   tasty_ratio [\<lparr>features = [1], tasty = 1\<rparr>, \<lparr>features = [2], tasty = 1\<rparr>] = Inr 1 \<and>
   tasty_ratio [] = Inl ZeroDivisionError"
  using tasty_ratio_range[of "[\<lparr>features = [1], tasty = 1\<rparr>, \<lparr>features = [2], tasty = 0\<rparr>]"]
    tasty_ratio_range[of "[\<lparr>features = [1], tasty = 0\<rparr>, \<lparr>features = [2], tasty = 2\<rparr>]"]
    tasty_ratio_range[of "[\<lparr>features = [1], tasty = 1\<rparr>, \<lparr>features = [2], tasty = 1\<rparr>]"]
    tasty_ratio_range[of "[]"]
  by simp

section \<open>Properties of the stratified split\<close>

lemma mset_class_indices_concat:
  assumes "distinct cs"
  shows "mset (concat (map (class_indices labels) cs))
           = mset (filter (\<lambda>i. labels ! i \<in> set cs) [0..<length labels])"
  using assms
proof (induction cs)
  case Nil
  show ?case by simp
next
  case (Cons c cs)
  hence c: "c \<notin> set cs" and IH: "mset (concat (map (class_indices labels) cs))
           = mset (filter (\<lambda>i. labels ! i \<in> set cs) [0..<length labels])" by auto
  have "mset (filter (\<lambda>i. labels ! i = c) xs) + mset (filter (\<lambda>i. labels ! i \<in> set cs) xs)
          = mset (filter (\<lambda>i. labels ! i \<in> set (c # cs)) xs)" for xs :: "nat list"
    using c by (induction xs) auto
  from this[of "[0..<length labels]"]
  have step: "mset (class_indices labels c) + mset (filter (\<lambda>i. labels ! i \<in> set cs) [0..<length labels])
          = mset (filter (\<lambda>i. labels ! i \<in> set (c # cs)) [0..<length labels])"
    by (simp only: class_indices_def)
  have "mset (concat (map (class_indices labels) (c # cs)))
          = mset (class_indices labels c) + mset (concat (map (class_indices labels) cs))"
    by (simp only: list.map concat.simps mset_append)
  also have "\<dots> = mset (class_indices labels c)
                   + mset (filter (\<lambda>i. labels ! i \<in> set cs) [0..<length labels])"
    by (simp only: IH)
  also note step
  finally show ?case .
qed

lemma mset_class_indices_all:
  assumes "distinct cs" "set labels \<subseteq> set cs"
  shows "mset (concat (map (class_indices labels) cs)) = mset [0..<length labels]"
proof -
  have "filter (\<lambda>i. labels ! i \<in> set cs) [0..<length labels] = [0..<length labels]"
    using assms(2) by (auto simp: filter_id_conv)
  thus ?thesis using mset_class_indices_concat[OF assms(1), of labels] by simp
qed

lemma mset_take_drop_concat:
  "mset (concat (map (\<lambda>g. drop (k g) g) gs)) + mset (concat (map (\<lambda>g. take (k g) g) gs))
     = mset (concat gs)"
proof (induction gs)
  case Nil
  show ?case by simp
next
  case (Cons g gs)
  have "mset (take (k g) g) + mset (drop (k g) g) = mset g"
    by (metis append_take_drop_id mset_append)
  with Cons show ?case by (simp add: ac_simps)
qed

lemma mset_shuffled_groups:
  assumes "\<And>g. mset (shuffle g) = mset g"
  shows "mset (concat (map (\<lambda>c. shuffle (f c)) cs)) = mset (concat (map f cs))"
  using assms by (induction cs) auto

lemma round_sum_bound:
  fixes f :: real
  shows "\<bar>(\<Sum>m\<leftarrow>ms. real_of_int (round (f * real m))) - f * real (sum_list ms)\<bar> \<le> real (length ms) / 2"
proof (induction ms)
  case Nil
  show ?case by simp
next
  case (Cons m ms)
  have "\<bar>real_of_int (round (f * real m)) - f * real m\<bar> \<le> 1 / 2"
    by (rule of_int_round_abs_le)
  moreover have "(\<Sum>x\<leftarrow>m # ms. real_of_int (round (f * real x))) - f * real (sum_list (m # ms))
      = (real_of_int (round (f * real m)) - f * real m)
        + ((\<Sum>x\<leftarrow>ms. real_of_int (round (f * real x))) - f * real (sum_list ms))"
    by (simp add: algebra_simps)
  moreover have "real (length (m # ms)) / 2 = 1 / 2 + real (length ms) / 2"
    by (simp add: field_simps)
  ultimately show ?case using Cons.IH by linarith
qed


lemma round_fraction_bounds:
  fixes f :: real
  assumes "0 < f" "f < 1"
  shows "0 \<le> round (f * real m)" and "nat (round (f * real m)) \<le> m"
proof -
  have "0 \<le> f * real m" using assms by simp
  hence "round (0::real) \<le> round (f * real m)" by (rule round_mono)
  thus nn: "0 \<le> round (f * real m)" by simp
  have "f * real m \<le> real m" using assms by (simp add: mult_left_le_one_le)
  hence "round (f * real m) \<le> round (real m)" by (rule round_mono)
  hence "round (f * real m) \<le> int m" by simp
  thus "nat (round (f * real m)) \<le> m" using nn by linarith
qed

lemma filter_class_concat_none:
  assumes "c \<notin> set cs" "\<And>c'. \<forall>i\<in>set (h c'). lab i = c'"
  shows "filter (\<lambda>i. lab i = c) (concat (map h cs)) = []"
  using assms by (induction cs) (auto simp: filter_empty_conv)

lemma filter_class_concat:
  assumes "distinct cs" "c \<in> set cs" "\<And>c'. \<forall>i\<in>set (h c'). lab i = c'"
  shows "filter (\<lambda>i. lab i = c) (concat (map h cs)) = h c"
  using assms(1,2)
proof (induction cs)
  case Nil
  then show ?case by simp
next
  case (Cons a cs)
  show ?case
  proof (cases "a = c")
    case True
    hence "c \<notin> set cs" using Cons.prems by simp
    hence "filter (\<lambda>i. lab i = c) (concat (map h cs)) = []"
      using assms(3) by (rule filter_class_concat_none)
    moreover have "filter (\<lambda>i. lab i = c) (h c) = h c"
      using assms(3) by (simp add: filter_id_conv)
    ultimately show ?thesis using True by simp
  next
    case False
    hence "filter (\<lambda>i. lab i = c) (h a) = []"
      using assms(3)[of a] by (auto simp: filter_empty_conv)
    moreover have "filter (\<lambda>i. lab i = c) (concat (map h cs)) = h c"
      using Cons False by auto
    ultimately show ?thesis by simp
  qed
qed

lemma of_int_sum_list_nat:
  "real_of_int (int (\<Sum>c\<leftarrow>cs. g c)) = (\<Sum>c\<leftarrow>cs. real_of_int (int (g c)))"
  by (induction cs) simp_all

lemma int_abs_half_bound:
  fixes d :: int and C :: nat
  assumes "\<bar>real_of_int d\<bar> \<le> (real C + 1) / 2"
  shows "\<bar>d\<bar> \<le> int C"
proof -
  have "(real C + 1) / 2 < real C + 1" by (simp add: field_simps)
  hence "\<bar>real_of_int d\<bar> < real C + 1" using assms by (rule le_less_trans[rotated])
  hence "real_of_int \<bar>d\<bar> < real_of_int (int C + 1)" by simp
  hence "\<bar>d\<bar> < int C + 1" by (simp only: of_int_less_iff)
  thus ?thesis by linarith
qed

lemma class_indices_nonempty:
  assumes "c \<in> set labels"
  shows "class_indices labels c \<noteq> []"
proof -
  from assms obtain i where "i < length labels" "labels ! i = c" by (auto simp: in_set_conv_nth)
  hence "i \<in> set (class_indices labels c)" by (simp add: class_indices_def)
  thus ?thesis by auto
qed

text \<open>
  Claim C3.  For a dataset with at least one example of every class and a test fraction
  \<open>f\<close> strictly between 0 and 1, \<open>stratified_split\<close> returns a train and a test partition
  that are disjoint, free of repetitions, and together are the full index set; the size
  of the test partition differs from \<open>round (f * |D|)\<close> by at most one per class group,
  that is by at most the number of classes; and of each class, exactly
  \<open>round (f * group size)\<close> indices are in the test partition.  The random choice is any
  rearrangement of each class group.
\<close>

theorem stratified_split_partition:
  assumes perm: "\<And>g. mset (shuffle seed g) = mset g"
    and dist: "distinct classes"
    and cover: "set labels = set classes"
    and f: "0 < f" "f < 1"
  shows "\<exists>train test.
           stratified_split shuffle classes labels f seed = Inr (train, test) \<and>
           set train \<inter> set test = {} \<and>
           set train \<union> set test = {0..<length labels} \<and>
           distinct train \<and> distinct test \<and>
           \<bar>int (length test) - round (f * real (length labels))\<bar> \<le> int (length classes) \<and>
           (\<forall>c\<in>set classes.
              int (length (filter (\<lambda>i. labels ! i = c) test))
                = round (f * real (length (class_indices labels c))))"
proof -
  define grp where "grp c = shuffle seed (class_indices labels c)" for c
  define k where "k g = nat (round (f * real (length g)))" for g :: "nat list"
  define train where "train = concat (map (\<lambda>g. drop (k g) g) (map grp classes))"
  define test where "test = concat (map (\<lambda>g. take (k g) g) (map grp classes))"
  have len_grp: "length (grp c) = length (class_indices labels c)" for c
    unfolding grp_def using perm by (metis size_mset)
  have set_grp: "set (grp c) = set (class_indices labels c)" for c
    unfolding grp_def using perm by (metis set_mset_mset)
  have "\<not> (\<exists>c\<in>set classes. class_indices labels c = [])"
    using cover class_indices_nonempty by fastforce
  hence res: "stratified_split shuffle classes labels f seed = Inr (train, test)"
    using f by (simp add: stratified_split_def train_def test_def k_def grp_def Let_def comp_def)
  have "mset train + mset test = mset (concat (map grp classes))"
    unfolding train_def test_def by (rule mset_take_drop_concat)
  also have "\<dots> = mset (concat (map (class_indices labels) classes))"
    unfolding grp_def using perm by (rule mset_shuffled_groups)
  also have "\<dots> = mset [0..<length labels]"
    using dist cover by (intro mset_class_indices_all) auto
  finally have ms: "mset (train @ test) = mset [0..<length labels]" by simp
  hence d: "distinct (train @ test)" by (metis distinct_upt mset_eq_imp_distinct_iff)
  have s: "set (train @ test) = {0..<length labels}" using ms by (metis mset_eq_setD set_upt)
  have k_le: "k g \<le> length g" for g
    unfolding k_def using f by (rule round_fraction_bounds(2))
  have k_int: "int (k g) = round (f * real (length g))" for g
    unfolding k_def using round_fraction_bounds(1)[OF f] by simp
  have "length test = (\<Sum>c\<leftarrow>classes. k (grp c))"
    unfolding test_def using k_le by (simp add: length_concat comp_def min_absorb2)
  hence "real_of_int (int (length test)) = (\<Sum>c\<leftarrow>classes. real_of_int (int (k (grp c))))"
    by (simp only: of_int_sum_list_nat)
  also have "\<dots> = (\<Sum>m\<leftarrow>map (\<lambda>c. length (class_indices labels c)) classes.
                      real_of_int (round (f * real m)))"
    by (simp add: k_int len_grp comp_def)
  finally have lt: "real_of_int (int (length test))
      = (\<Sum>m\<leftarrow>map (\<lambda>c. length (class_indices labels c)) classes. real_of_int (round (f * real m)))" .
  have "sum_list (map (\<lambda>c. length (class_indices labels c)) classes)
          = length (concat (map (class_indices labels) classes))"
    by (simp add: length_concat comp_def)
  also have "\<dots> = length [0..<length labels]"
    using mset_class_indices_all[of classes labels] dist cover by (metis order_refl size_mset)
  finally have tot: "sum_list (map (\<lambda>c. length (class_indices labels c)) classes) = length labels"
    by simp
  have b1: "\<bar>real_of_int (int (length test)) - f * real (length labels)\<bar> \<le> real (length classes) / 2"
    using round_sum_bound[of f "map (\<lambda>c. length (class_indices labels c)) classes"] lt tot by simp
  have b2: "\<bar>real_of_int (round (f * real (length labels))) - f * real (length labels)\<bar> \<le> 1 / 2"
    by (rule of_int_round_abs_le)
  have tri: "\<bar>a - r\<bar> \<le> \<bar>a - x\<bar> + \<bar>r - x\<bar>" for a r x :: real by linarith
  have "\<bar>real_of_int (int (length test)) - real_of_int (round (f * real (length labels)))\<bar>
          \<le> real (length classes) / 2 + 1 / 2"
    by (rule order_trans[OF tri add_mono[OF b1 b2]])
  hence "\<bar>real_of_int (int (length test)) - real_of_int (round (f * real (length labels)))\<bar>
          \<le> (real (length classes) + 1) / 2"
    by (simp add: add_divide_distrib)
  hence "\<bar>real_of_int (int (length test) - round (f * real (length labels)))\<bar>
          \<le> (real (length classes) + 1) / 2"
    by (simp only: of_int_diff)
  hence bound: "\<bar>int (length test) - round (f * real (length labels))\<bar> \<le> int (length classes)"
    by (rule int_abs_half_bound)
  have per: "int (length (filter (\<lambda>i. labels ! i = c) test))
                = round (f * real (length (class_indices labels c)))" if c: "c \<in> set classes" for c
  proof -
    have lab: "\<forall>i\<in>set (take (k (grp c')) (grp c')). labels ! i = c'" for c'
      using set_grp[of c'] by (auto simp: class_indices_def dest!: in_set_takeD)
    have "filter (\<lambda>i. labels ! i = c) (concat (map (\<lambda>c'. take (k (grp c')) (grp c')) classes))
            = take (k (grp c)) (grp c)"
      using dist c lab by (rule filter_class_concat)
    hence "filter (\<lambda>i. labels ! i = c) test = take (k (grp c)) (grp c)"
      by (simp add: test_def comp_def)
    thus ?thesis using k_le[of "grp c"] k_int[of "grp c"] len_grp[of c] by simp
  qed
  show ?thesis using res d s bound per by (intro exI[of _ train] exI[of _ test]) auto
qed

theorem stratified_split_partition_witness:
  "distinct ''AB'' \<and> set ''AAAAAAABBB'' = set ''AB'' \<and>
   (\<exists>train test.
      stratified_split (\<lambda>s g. rev g) ''AB'' ''AAAAAAABBB'' (1 / 5) 0 = Inr (train, test) \<and>
      set train \<inter> set test = {} \<and>
      set train \<union> set test = {0..<length ''AAAAAAABBB''} \<and>
      distinct train \<and> distinct test \<and>
      \<bar>int (length test) - round (1 / 5 * real (length ''AAAAAAABBB''))\<bar> \<le> int (length ''AB'') \<and>
      (\<forall>c\<in>set ''AB''.
         int (length (filter (\<lambda>i. ''AAAAAAABBB'' ! i = c) test))
           = round (1 / 5 * real (length (class_indices ''AAAAAAABBB'' c)))))"
proof -
  have h1: "\<And>g :: nat list. mset (rev g) = mset g" by simp
  have h2: "distinct ''AB''" by simp
  have h3: "set ''AAAAAAABBB'' = set ''AB''" by auto
  have h4: "(0::real) < 1 / 5" "(1 / 5 :: real) < 1" by simp_all
  from stratified_split_partition[of "\<lambda>s g. rev g" 0 "''AB''" "''AAAAAAABBB''" "1 / 5", OF h1 h2 h3 h4] h2 h3
  show ?thesis by blast
qed

lemma stratified_split_example:
  "stratified_split (\<lambda>s g. rev g) ''AB'' ''AAAAAAABBB'' (1 / 5) 0
     = Inr ([5, 4, 3, 2, 1, 0, 8, 7], [6, 9])"
  by code_simp

section \<open>Properties of the stratified folds\<close>

lemma length_chunks: "length (chunks ss xs) = length ss"
  by (induction ss arbitrary: xs) auto

lemma concat_chunks: "concat (chunks ss xs) = take (sum_list ss) xs"
proof (induction ss arbitrary: xs)
  case Nil
  show ?case by simp
next
  case (Cons s ss)
  show ?case by (simp add: Cons.IH take_add)
qed

lemma sum_list_indicator: "(\<Sum>j\<leftarrow>[0..<k]. if j < r then 1 else 0) = min r k"
  by (induction k) (auto simp: min_def)

lemma sum_list_fold_sizes:
  assumes "0 < k"
  shows "sum_list (fold_sizes m k) = m"
proof -
  have "sum_list (fold_sizes m k)
          = (\<Sum>j\<leftarrow>[0..<k]. m div k) + (\<Sum>j\<leftarrow>[0..<k]. if j < m mod k then 1 else 0)"
    by (simp add: fold_sizes_def sum_list_addf)
  also have "(\<Sum>j\<leftarrow>[0..<k]. m div k) = k * (m div k)"
    by (simp add: sum_list_triv)
  also have "(\<Sum>j\<leftarrow>[0..<k]. if j < m mod k then 1 else 0) = m mod k"
    using assms by (simp add: sum_list_indicator min_def) 
  finally show ?thesis by simp
qed


lemma concat_class_groups:
  assumes "0 < k" "\<And>g. mset (shuffle seed g) = mset g"
  shows "length (class_groups shuffle seed labels k c) = k"
    and "mset (concat (class_groups shuffle seed labels k c)) = mset (class_indices labels c)"
proof -
  show "length (class_groups shuffle seed labels k c) = k"
    by (simp add: class_groups_def Let_def length_chunks fold_sizes_def)
  show "mset (concat (class_groups shuffle seed labels k c)) = mset (class_indices labels c)"
    using assms by (simp add: class_groups_def Let_def concat_chunks sum_list_fold_sizes)
qed

lemma mset_concat_map_append:
  "mset (concat (map (\<lambda>c. a c @ b c) cs)) = mset (concat (map a cs)) + mset (concat (map b cs))"
  by (induction cs) (simp_all add: ac_simps)

lemma mset_concat_map_filter:
  "mset (concat (map f (filter P xs))) + mset (concat (map f (filter (\<lambda>x. \<not> P x) xs)))
     = mset (concat (map f xs))"
  by (induction xs) (simp_all add: ac_simps)

lemma filter_upt_eq:
  assumes "i < k"
  shows "filter (\<lambda>j. \<not> j \<noteq> i) [0..<k] = [i]"
  using assms
proof (induction k)
  case 0
  then show ?case by simp
next
  case (Suc k)
  show ?case
  proof (cases "i = k")
    case True
    have "filter (\<lambda>j. j = k) [0..<k] = []" by (auto simp: filter_empty_conv)
    thus ?thesis using True by simp
  next
    case False
    hence "i < k" using Suc.prems by simp
    thus ?thesis using Suc.IH False by simp
  qed
qed

lemma mset_others_and_own:
  assumes "i < length L"
  shows "mset (concat (map ((!) L) (filter (\<lambda>j. j \<noteq> i) [0..<length L]))) + mset (L ! i)
           = mset (concat L)"
proof -
  have "mset (concat (map ((!) L) (filter (\<lambda>j. j \<noteq> i) [0..<length L])))
          + mset (concat (map ((!) L) (filter (\<lambda>j. \<not> j \<noteq> i) [0..<length L])))
        = mset (concat (map ((!) L) [0..<length L]))"
    by (rule mset_concat_map_filter)
  thus ?thesis using assms by (simp only: filter_upt_eq map_nth) simp
qed

lemma mset_concat_swap:
  "mset (concat (map (\<lambda>i. concat (map (\<lambda>c. G c i) cs)) js))
     = mset (concat (map (\<lambda>c. concat (map (\<lambda>i. G c i) js)) cs))"
proof (induction cs)
  case Nil
  show ?case by (induction js) simp_all
next
  case (Cons c cs)
  have "mset (concat (map (\<lambda>i. concat (map (\<lambda>c. G c i) (c # cs))) js))
          = mset (concat (map (\<lambda>i. G c i @ concat (map (\<lambda>c. G c i) cs)) js))"
    by simp
  also have "\<dots> = mset (concat (map (\<lambda>i. G c i) js))
                   + mset (concat (map (\<lambda>i. concat (map (\<lambda>c. G c i) cs)) js))"
    by (rule mset_concat_map_append)
  finally show ?case using Cons.IH by simp
qed

lemma sum_count_list_concat:
  "(\<Sum>i\<leftarrow>js. count_list (v i) x) = count (mset (concat (map v js))) x"
  by (induction js) (simp_all add: count_mset)

lemma length_filter_member:
  assumes "\<And>i. i \<in> set js \<Longrightarrow> count_list (v i) x \<le> 1"
  shows "length (filter (\<lambda>i. x \<in> set (v i)) js) = (\<Sum>i\<leftarrow>js. count_list (v i) x)"
  using assms
proof (induction js)
  case Nil
  show ?case by simp
next
  case (Cons j js)
  have "count_list (v j) x \<le> 1" using Cons.prems by simp
  hence "count_list (v j) x = (if x \<in> set (v j) then 1 else 0)"
    by (cases "x \<in> set (v j)") (auto simp: count_list_0_iff dest: le_neq_implies_less)
  thus ?case using Cons by simp
qed


lemma mset_concat_cong:
  assumes "\<And>c. c \<in> set cs \<Longrightarrow> mset (a c) = mset (b c)"
  shows "mset (concat (map a cs)) = mset (concat (map b cs))"
  using assms by (induction cs) simp_all

text \<open>
  Claim C4.  For \<open>k \<ge> 2\<close> and a dataset whose every class has at least \<open>k\<close> members,
  \<open>stratified_kfold\<close> returns \<open>k\<close> folds such that every dataset index is in the
  validation set of exactly one fold, occurs exactly once in all validation sets together
  and exactly \<open>k - 1\<close> times in all training sets together, and the training set of each
  fold is the full index set without the validation set of that fold.
\<close>

theorem stratified_kfold_partition:
  assumes perm: "\<And>g. mset (shuffle seed g) = mset g"
    and dist: "distinct classes"
    and cover: "set labels \<subseteq> set classes"
    and k: "2 \<le> k"
    and enough: "\<forall>c\<in>set classes. k \<le> length (class_indices labels c)"
  shows "\<exists>folds.
           stratified_kfold shuffle classes labels k seed = Inr folds \<and>
           length folds = k \<and>
           (\<forall>x<length labels.
              length (filter (\<lambda>fd. x \<in> set (snd fd)) folds) = 1 \<and>
              (\<Sum>fd\<leftarrow>folds. count_list (snd fd) x) = 1 \<and>
              (\<Sum>fd\<leftarrow>folds. count_list (fst fd) x) = k - 1) \<and>
           (\<forall>fd\<in>set folds. set (fst fd) = {0..<length labels} - set (snd fd))"
proof -
  define L where "L c = class_groups shuffle seed labels k c" for c
  define tr where
    "tr i = concat (map (\<lambda>c. concat (map ((!) (L c)) (filter (\<lambda>j. j \<noteq> i) [0..<k]))) classes)" for i
  define va where "va i = concat (map (\<lambda>c. L c ! i) classes)" for i
  define folds where "folds = map (\<lambda>i. (tr i, va i)) [0..<k]"
  have kpos: "0 < k" using k by simp
  have lenL: "length (L c) = k" for c
    unfolding L_def using kpos perm by (rule concat_class_groups(1))
  have msL: "mset (concat (L c)) = mset (class_indices labels c)" for c
    unfolding L_def using kpos perm by (rule concat_class_groups(2))
  have all: "mset (concat (map (\<lambda>c. concat (L c)) classes)) = mset [0..<length labels]"
  proof -
    have "mset (concat (map (\<lambda>c. concat (L c)) classes))
            = mset (concat (map (class_indices labels) classes))"
      by (rule mset_concat_cong) (rule msL)
    thus ?thesis using mset_class_indices_all[OF dist cover] by simp
  qed
  have "\<not> (\<exists>c\<in>set classes. length (class_indices labels c) < k)"
    using enough by (auto simp: not_less)
  hence res: "stratified_kfold shuffle classes labels k seed = Inr folds"
    by (simp add: stratified_kfold_def folds_def tr_def va_def L_def Let_def)
  have len: "length folds = k" by (simp add: folds_def)
  have U: "mset (tr i) + mset (va i) = mset [0..<length labels]" if "i < k" for i
  proof -
    have "mset (tr i) + mset (va i)
            = mset (concat (map (\<lambda>c. concat (map ((!) (L c)) (filter (\<lambda>j. j \<noteq> i) [0..<k])) @ L c ! i)
                  classes))"
      unfolding tr_def va_def by (rule mset_concat_map_append[symmetric])
    also have "\<dots> = mset (concat (map (\<lambda>c. concat (L c)) classes))"
    proof (rule mset_concat_cong)
      fix c
      show "mset (concat (map ((!) (L c)) (filter (\<lambda>j. j \<noteq> i) [0..<k])) @ L c ! i)
              = mset (concat (L c))"
        using mset_others_and_own[of i "L c"] that lenL[of c] by simp
    qed
    finally show ?thesis using all by simp
  qed
  have V: "mset (concat (map va [0..<k])) = mset [0..<length labels]"
  proof -
    have "mset (concat (map va [0..<k]))
            = mset (concat (map (\<lambda>c. concat (map (\<lambda>i. L c ! i) [0..<k])) classes))"
      unfolding va_def by (rule mset_concat_swap)
    also have "\<dots> = mset (concat (map (\<lambda>c. concat (L c)) classes))"
    proof (rule mset_concat_cong)
      fix c
      have "map (\<lambda>i. L c ! i) [0..<length (L c)] = L c" by (rule map_nth)
      thus "mset (concat (map (\<lambda>i. L c ! i) [0..<k])) = mset (concat (L c))"
        using lenL[of c] by simp
    qed
    finally show ?thesis using all by simp
  qed
  have counts: "length (filter (\<lambda>fd. x \<in> set (snd fd)) folds) = 1 \<and>
              (\<Sum>fd\<leftarrow>folds. count_list (snd fd) x) = 1 \<and>
              (\<Sum>fd\<leftarrow>folds. count_list (fst fd) x) = k - 1" if x: "x < length labels" for x
  proof -
    have one: "count (mset [0..<length labels]) x = 1"
      using x by simp
    have both: "count_list (tr i) x + count_list (va i) x = 1" if "i < k" for i
      using U[OF that] one by (metis count_mset count_union)
    have sva: "(\<Sum>i\<leftarrow>[0..<k]. count_list (va i) x) = 1"
      using V one by (simp add: sum_count_list_concat)
    have "(\<Sum>i\<leftarrow>[0..<k]. count_list (tr i) x + count_list (va i) x) = (\<Sum>i\<leftarrow>[0..<k]. 1)"
      by (rule arg_cong[where f = sum_list], rule map_cong) (simp_all add: both)
    hence "(\<Sum>i\<leftarrow>[0..<k]. count_list (tr i) x) + (\<Sum>i\<leftarrow>[0..<k]. count_list (va i) x) = k"
      by (simp add: sum_list_addf sum_list_triv)
    hence str: "(\<Sum>i\<leftarrow>[0..<k]. count_list (tr i) x) = k - 1" using sva by simp
    have "length (filter (\<lambda>i. x \<in> set (va i)) [0..<k]) = (\<Sum>i\<leftarrow>[0..<k]. count_list (va i) x)"
    proof (rule length_filter_member)
      fix i assume "i \<in> set [0..<k]"
      hence "i < k" by simp
      from both[OF this] show "count_list (va i) x \<le> 1" by simp
    qed
    hence lf: "length (filter (\<lambda>i. x \<in> set (va i)) [0..<k]) = 1" using sva by simp
    have "length (filter (\<lambda>fd. x \<in> set (snd fd)) folds)
            = length (filter (\<lambda>i. x \<in> set (va i)) [0..<k])"
      by (simp add: folds_def filter_map comp_def)
    thus ?thesis using lf sva str by (simp add: folds_def comp_def)
  qed
  have sets: "set (fst fd) = {0..<length labels} - set (snd fd)" if "fd \<in> set folds" for fd
  proof -
    from that obtain i where i: "i < k" "fd = (tr i, va i)" by (auto simp: folds_def)
    from U[OF i(1)] have ms: "mset (tr i @ va i) = mset [0..<length labels]" by simp
    hence "distinct (tr i @ va i)" by (metis distinct_upt mset_eq_imp_distinct_iff)
    moreover have "set (tr i @ va i) = {0..<length labels}" using ms by (metis mset_eq_setD set_upt)
    ultimately show ?thesis using i(2) by auto
  qed
  show ?thesis using res len counts sets by (intro exI[of _ folds]) blast
qed

theorem stratified_kfold_partition_witness:
  "distinct ''AB'' \<and> set ''AAAAAAABBB'' \<subseteq> set ''AB'' \<and>
   (\<exists>folds.
      stratified_kfold (\<lambda>s g. rev g) ''AB'' ''AAAAAAABBB'' 3 0 = Inr folds \<and>
      length folds = 3 \<and>
      (\<forall>x<length ''AAAAAAABBB''.
         length (filter (\<lambda>fd. x \<in> set (snd fd)) folds) = 1 \<and>
         (\<Sum>fd\<leftarrow>folds. count_list (snd fd) x) = 1 \<and>
         (\<Sum>fd\<leftarrow>folds. count_list (fst fd) x) = 3 - 1) \<and>
      (\<forall>fd\<in>set folds. set (fst fd) = {0..<length ''AAAAAAABBB''} - set (snd fd)))"
proof -
  have h1: "\<And>g :: nat list. mset (rev g) = mset g" by simp
  have h2: "distinct ''AB''" by simp
  have h3: "set ''AAAAAAABBB'' \<subseteq> set ''AB''" by auto
  have h4: "(2::nat) \<le> 3" by simp
  have h5: "\<forall>c\<in>set ''AB''. 3 \<le> length (class_indices ''AAAAAAABBB'' c)" by code_simp
  from stratified_kfold_partition[of "\<lambda>s g. rev g" 0 "''AB''" "''AAAAAAABBB''" 3, OF h1 h2 h3 h4 h5] h2 h3
  show ?thesis by blast
qed

lemma stratified_kfold_example:
  "stratified_kfold (\<lambda>s g. rev g) ''AB'' ''AAAAAAABBB'' 3 0
     = Inr [([3, 2, 1, 0, 8, 7], [6, 5, 4, 9]),
            ([6, 5, 4, 1, 0, 9, 7], [3, 2, 8]),
            ([6, 5, 4, 3, 2, 9, 8], [1, 0, 7])]"
  by code_simp

end
